theory Spec2Isabelle
  imports Complex_Main
begin

section \<open>Time\<close>

text \<open>
  The service works on naive \<open>datetime\<close> values. A datetime is modelled by the number of
  microseconds since midnight of a fixed day, an \<open>int\<close>; a \<open>timedelta\<close> is a number of
  microseconds. The calendar bounds of the interpreter (years 1 to 9999) are not part of the
  model: the time line is unbounded in both directions.
\<close>

type_synonym datetime = int

definition SECOND :: int where
  "SECOND = 1000000"

definition MINUTE :: int where
  "MINUTE = 60 * SECOND"

definition HOUR :: int where
  "HOUR = 60 * MINUTE"

definition DAY :: int where
  "DAY = 24 * HOUR"

text \<open>\<open>t.replace(minute=0, second=0, microsecond=0)\<close>: the start of the hour of \<open>t\<close>.\<close>

definition replace_hour_start :: "datetime \<Rightarrow> datetime" where
  "replace_hour_start t = t - t mod HOUR"

text \<open>\<open>t.date()\<close>: the day number of \<open>t\<close>.\<close>

definition date :: "datetime \<Rightarrow> int" where
  "date t = t div DAY"


section \<open>The cutover of \<open>get_order_count_by_minute\<close>\<close>

text \<open>
  \<^verbatim>\<open>while batch_latest < end_time: batch_latest += timedelta(hours=1)\<close>
\<close>

function advance_batch_latest :: "datetime \<Rightarrow> datetime \<Rightarrow> datetime" where
  "advance_batch_latest end_time batch_latest =
     (if batch_latest < end_time
      then advance_batch_latest end_time (batch_latest + HOUR)
      else batch_latest)"
  by pat_completeness auto
termination
  by (relation "measure (\<lambda>(end_time, batch_latest). nat (end_time - batch_latest))")
     (auto simp: HOUR_def MINUTE_def SECOND_def)

declare advance_batch_latest.simps [simp del]

text \<open>Lines 49 to 52: the latest time the batch layer is taken to cover.\<close>

definition batch_latest_of :: "datetime \<Rightarrow> datetime \<Rightarrow> datetime" where
  "batch_latest_of start_time end_time =
     advance_batch_latest end_time (replace_hour_start start_time) - HOUR"

section \<open>The two stores and the host\<close>

text \<open>
  Exceptions of the interpreter and of the two drivers. A failing \<open>int(count)\<close> is a
  \<open>ValueError\<close>, an index past the end of a list an \<open>IndexError\<close>; a failure of the
  ClickHouse driver is \<open>BatchStoreError\<close>, one of the Redis client \<open>SpeedStoreError\<close>.
\<close>

datatype error = ValueError | IndexError | BatchStoreError | SpeedStoreError

text \<open>
  A Python float: the finite values are idealised as reals (rounding is not modelled), the
  three special values are kept, since the batch store computes ratios itself and can return them.
\<close>

datatype pyfloat = Finite real | PosInf | NegInf | NaN

fun fadd :: "pyfloat \<Rightarrow> pyfloat \<Rightarrow> pyfloat" where
  "fadd (Finite a) (Finite b) = Finite (a + b)"
| "fadd NaN y = NaN"
| "fadd x NaN = NaN"
| "fadd PosInf NegInf = NaN"
| "fadd NegInf PosInf = NaN"
| "fadd PosInf y = PosInf"
| "fadd x PosInf = PosInf"
| "fadd NegInf y = NegInf"
| "fadd x NegInf = NegInf"

text \<open>Division of a float by a positive integer.\<close>

fun fdiv_pos :: "pyfloat \<Rightarrow> nat \<Rightarrow> pyfloat" where
  "fdiv_pos (Finite a) n = Finite (a / real n)"
| "fdiv_pos x n = x"

text \<open>The calls the time-series query makes to the stores, in the order it makes them.\<close>

datatype call =
    ClickhouseMinuteCounts datetime datetime
  | ClickhouseFallbackCount datetime datetime
  | RedisGet string

text \<open>
  \<open>self\<close>: the ClickHouse client, one field per query template of the source (the template's
  parameters are the arguments, its rows the result, typed by the select list), and the Redis
  client. The counts of \<open>count()\<close> and \<open>countIf\<close> in the realtime and funnel templates are
  unsigned. The last two fields are the host: \<open>posix_seconds t\<close> is
  \<open>int(t.timestamp())\<close>, which depends on the time zone of the process, and \<open>int_of_str\<close> is
  \<open>int\<close> on strings, \<open>None\<close> where it raises \<open>ValueError\<close>.
\<close>

record service =
  clickhouse_minute_counts :: "datetime \<Rightarrow> datetime \<Rightarrow> error + (datetime \<times> int) list"
  clickhouse_fallback_count :: "datetime \<Rightarrow> datetime \<Rightarrow> error + int list"
  clickhouse_daily_sales ::
    "int \<Rightarrow> int \<Rightarrow> error + (string \<times> int \<times> pyfloat \<times> int \<times> pyfloat) list"
  clickhouse_realtime :: "datetime \<Rightarrow> error + (datetime \<times> nat \<times> pyfloat) list"
  clickhouse_funnel :: "int \<Rightarrow> int \<Rightarrow> error + (nat \<times> nat \<times> nat) list"
  redis_get :: "string \<Rightarrow> error + string option"
  posix_seconds :: "datetime \<Rightarrow> int"
  int_of_str :: "string \<Rightarrow> int option"

section \<open>Rendering an integer\<close>

definition digit_char :: "nat \<Rightarrow> char" where
  "digit_char d = ''0123456789'' ! d"

fun str_of_nat :: "nat \<Rightarrow> string" where
  "str_of_nat n =
     (if n < 10 then [digit_char n] else str_of_nat (n div 10) @ [digit_char (n mod 10)])"

declare str_of_nat.simps [simp del]

text \<open>\<open>str(i)\<close> for an integer, as the f-string renders it.\<close>

definition str :: "int \<Rightarrow> string" where
  "str i = (if i < 0 then CHR ''-'' # str_of_nat (nat (- i)) else str_of_nat (nat i))"

section \<open>\<open>get_order_count_by_minute\<close>\<close>

type_synonym series = "(datetime \<times> int) list"

text \<open>The key of a bucket: \<^verbatim>\<open>f"order_count:{int(current.timestamp())}"\<close>.\<close>

definition order_count_key :: "service \<Rightarrow> datetime \<Rightarrow> string" where
  "order_count_key svc current = ''order_count:'' @ str (posix_seconds svc current)"

text \<open>
  Step 2, lines 57 to 74: the batch layer. Each block takes the results and the calls made so
  far and returns them updated; an exception ends the run with the calls made up to it.
\<close>

definition query_batch_layer ::
  "service \<Rightarrow> datetime \<Rightarrow> datetime \<Rightarrow> datetime \<Rightarrow> series \<Rightarrow> call list
     \<Rightarrow> (error + series) \<times> call list" where
  "query_batch_layer svc start_time end_time batch_latest results calls =
     (if start_time < batch_latest then
        (let calls1 = calls @ [ClickhouseMinuteCounts start_time (min end_time batch_latest)] in
         case clickhouse_minute_counts svc start_time (min end_time batch_latest) of
           Inl err \<Rightarrow> (Inl err, calls1)
         | Inr batch_results \<Rightarrow> (Inr (results @ batch_results), calls1))
      else (Inr results, calls))"

text \<open>Lines 87 to 101: the \<open>else\<close> branch of the loop body, the fallback to ClickHouse.\<close>

definition fallback_bucket ::
  "service \<Rightarrow> datetime \<Rightarrow> series \<Rightarrow> call list \<Rightarrow> (error + series) \<times> call list" where
  "fallback_bucket svc current results calls =
     (let calls1 = calls @ [ClickhouseFallbackCount current (current + MINUTE)] in
      case clickhouse_fallback_count svc current (current + MINUTE) of
        Inl err \<Rightarrow> (Inl err, calls1)
      | Inr fallback_result \<Rightarrow>
          (case fallback_result of
             [] \<Rightarrow> (Inr results, calls1)
           | row # _ \<Rightarrow> (Inr (results @ [(current, row)]), calls1)))"

text \<open>
  Lines 81 to 101: the loop body for one bucket. \<open>if count:\<close> is false for \<open>None\<close> and for
  the empty string.
\<close>

definition speed_bucket ::
  "service \<Rightarrow> datetime \<Rightarrow> series \<Rightarrow> call list \<Rightarrow> (error + series) \<times> call list" where
  "speed_bucket svc current results calls =
     (let key = order_count_key svc current;
          calls1 = calls @ [RedisGet key] in
      case redis_get svc key of
        Inl err \<Rightarrow> (Inl err, calls1)
      | Inr count \<Rightarrow>
          (case count of
             None \<Rightarrow> fallback_bucket svc current results calls1
           | Some c \<Rightarrow>
               if c = [] then fallback_bucket svc current results calls1
               else (case int_of_str svc c of
                       None \<Rightarrow> (Inl ValueError, calls1)
                     | Some n \<Rightarrow> (Inr (results @ [(current, n)]), calls1))))"

text \<open>Lines 80 to 103: \<^verbatim>\<open>while current < end_time: ...; current += timedelta(minutes=1)\<close>.\<close>

function speed_loop ::
  "service \<Rightarrow> datetime \<Rightarrow> datetime \<Rightarrow> series \<Rightarrow> call list \<Rightarrow> (error + series) \<times> call list" where
  "speed_loop svc end_time current results calls =
     (if current < end_time then
        (case speed_bucket svc current results calls of
           (Inl err, calls1) \<Rightarrow> (Inl err, calls1)
         | (Inr results1, calls1) \<Rightarrow> speed_loop svc end_time (current + MINUTE) results1 calls1)
      else (Inr results, calls))"
  by pat_completeness auto
termination
  by (relation "measure (\<lambda>(svc, end_time, current, results, calls). nat (end_time - current))")
     (auto simp: MINUTE_def SECOND_def)

declare speed_loop.simps [simp del]

text \<open>Step 3, lines 77 to 103: the speed layer.\<close>

definition query_speed_layer ::
  "service \<Rightarrow> datetime \<Rightarrow> datetime \<Rightarrow> series \<Rightarrow> call list \<Rightarrow> (error + series) \<times> call list" where
  "query_speed_layer svc end_time batch_latest results calls =
     (if end_time > batch_latest then speed_loop svc end_time batch_latest results calls
      else (Inr results, calls))"

definition get_order_count_by_minute ::
  "service \<Rightarrow> datetime \<Rightarrow> datetime \<Rightarrow> (error + series) \<times> call list" where
  "get_order_count_by_minute svc start_time end_time =
     (let batch_latest = batch_latest_of start_time end_time in
      case query_batch_layer svc start_time end_time batch_latest [] [] of
        (Inl err, calls) \<Rightarrow> (Inl err, calls)
      | (Inr results, calls) \<Rightarrow> query_speed_layer svc end_time batch_latest results calls)"

section \<open>The aggregate queries\<close>

text \<open>
  \<open>get_daily_sales_by_category\<close>: one dictionary per row. The date is kept as the day number
  the store returned (its ISO rendering is not modelled); \<open>float\<close> leaves a float as it is.
\<close>

record daily_sales =
  category :: string
  order_date :: int
  daily_sales :: pyfloat
  order_count :: int
  avg_order_value :: pyfloat

definition get_daily_sales_by_category ::
  "service \<Rightarrow> datetime \<Rightarrow> datetime \<Rightarrow> error + daily_sales list" where
  "get_daily_sales_by_category svc start_date end_date =
     (case clickhouse_daily_sales svc (date start_date) (date end_date) of
        Inl err \<Rightarrow> Inl err
      | Inr results \<Rightarrow>
          Inr (map (\<lambda>(row0, row1, row2, row3, row4).
                 \<lparr>category = row0, order_date = row1, daily_sales = row2,
                  order_count = row3, avg_order_value = row4\<rparr>) results))"

text \<open>
  \<open>get_realtime_metrics\<close>; \<open>now\<close> is the clock reading \<open>datetime.now()\<close>. The keys
  \<open>minute\<close>, \<open>count\<close> and \<open>revenue\<close> of an entry of \<open>orders_per_minute\<close> carry the prefix
  \<open>per_minute\<close>, and \<open>avg_order_value\<close> the prefix \<open>realtime\<close>.
\<close>

record minute_metrics =
  per_minute_minute :: datetime
  per_minute_count :: nat
  per_minute_revenue :: pyfloat

record realtime_metrics =
  last_5min_orders :: nat
  last_5min_revenue :: pyfloat
  realtime_avg_order_value :: pyfloat
  orders_per_minute :: "minute_metrics list"

definition get_realtime_metrics :: "service \<Rightarrow> datetime \<Rightarrow> error + realtime_metrics" where
  "get_realtime_metrics svc now =
     (let five_min_ago = now - 5 * MINUTE in
      case clickhouse_realtime svc five_min_ago of
        Inl err \<Rightarrow> Inl err
      | Inr results \<Rightarrow>
          (let total_orders = sum_list (map (\<lambda>(row0, row1, row2). row1) results);
               total_revenue = foldl fadd (Finite 0) (map (\<lambda>(row0, row1, row2). row2) results)
           in Inr \<lparr>last_5min_orders = total_orders,
                   last_5min_revenue = total_revenue,
                   realtime_avg_order_value =
                     (if total_orders > 0 then fdiv_pos total_revenue total_orders else Finite 0),
                   orders_per_minute =
                     map (\<lambda>(row0, row1, row2).
                       \<lparr>per_minute_minute = row0, per_minute_count = row1,
                        per_minute_revenue = row2\<rparr>) results\<rparr>))"

text \<open>
  \<open>get_conversion_funnel\<close>: \<open>execute(...)[0]\<close> raises \<open>IndexError\<close> on an empty result. The
  quotient of two integers is a finite float, idealised as a real.
\<close>

record conversion_funnel =
  page_views :: nat
  add_to_carts :: nat
  purchases :: nat
  view_to_cart_rate :: real
  cart_to_purchase_rate :: real
  overall_conversion_rate :: real

definition get_conversion_funnel ::
  "service \<Rightarrow> datetime \<Rightarrow> datetime \<Rightarrow> error + conversion_funnel" where
  "get_conversion_funnel svc start_date end_date =
     (case clickhouse_funnel svc (date start_date) (date end_date) of
        Inl err \<Rightarrow> Inl err
      | Inr rows \<Rightarrow>
          (case rows of
             [] \<Rightarrow> Inl IndexError
           | result # _ \<Rightarrow>
               (case result of (pv, atc, pu) \<Rightarrow>
                  Inr \<lparr>page_views = pv,
                       add_to_carts = atc,
                       purchases = pu,
                       view_to_cart_rate =
                         (if pv > 0 then real atc / real pv * 100 else 0),
                       cart_to_purchase_rate =
                         (if atc > 0 then real pu / real atc * 100 else 0),
                       overall_conversion_rate =
                         (if pv > 0 then real pu / real pv * 100 else 0)\<rparr>)))"

section \<open>What one run of the speed layer visits\<close>

text \<open>
  The values \<open>current\<close> takes in the loop of lines 79 to 103, in order: the buckets the speed
  layer looks up when it starts at \<open>current\<close>.
\<close>

function buckets :: "datetime \<Rightarrow> datetime \<Rightarrow> datetime list" where
  "buckets current end_time =
     (if current < end_time then current # buckets (current + MINUTE) end_time else [])"
  by pat_completeness auto
termination
  by (relation "measure (\<lambda>(current, end_time). nat (end_time - current))")
     (auto simp: MINUTE_def SECOND_def)

declare buckets.simps [simp del]

text \<open>The points the fallback query adds for a bucket, and the points the bucket adds.\<close>

definition fallback_points :: "service \<Rightarrow> datetime \<Rightarrow> series" where
  "fallback_points svc current =
     (case clickhouse_fallback_count svc current (current + MINUTE) of
        Inl err \<Rightarrow> []
      | Inr fallback_result \<Rightarrow>
          (case fallback_result of [] \<Rightarrow> [] | row # _ \<Rightarrow> [(current, row)]))"

definition bucket_points :: "service \<Rightarrow> datetime \<Rightarrow> series" where
  "bucket_points svc current =
     (case redis_get svc (order_count_key svc current) of
        Inl err \<Rightarrow> []
      | Inr count \<Rightarrow>
          (case count of
             None \<Rightarrow> fallback_points svc current
           | Some c \<Rightarrow>
               if c = [] then fallback_points svc current
               else (case int_of_str svc c of None \<Rightarrow> [] | Some n \<Rightarrow> [(current, n)])))"

text \<open>The speed store has nothing usable for the bucket: \<open>if count:\<close> fails.\<close>

definition speed_miss :: "service \<Rightarrow> datetime \<Rightarrow> bool" where
  "speed_miss svc current =
     (case redis_get svc (order_count_key svc current) of
        Inl err \<Rightarrow> False
      | Inr count \<Rightarrow> (case count of None \<Rightarrow> True | Some c \<Rightarrow> c = []))"

definition bucket_calls :: "service \<Rightarrow> datetime \<Rightarrow> call list" where
  "bucket_calls svc current =
     RedisGet (order_count_key svc current) #
       (if speed_miss svc current
        then [ClickhouseFallbackCount current (current + MINUTE)] else [])"

text \<open>The keys looked up in the speed store, in the order of the lookups.\<close>

fun redis_keys :: "call list \<Rightarrow> string list" where
  "redis_keys [] = []"
| "redis_keys (RedisGet key # calls) = key # redis_keys calls"
| "redis_keys (ClickhouseMinuteCounts start_param end_param # calls) = redis_keys calls"
| "redis_keys (ClickhouseFallbackCount start_param end_param # calls) = redis_keys calls"


section \<open>A host and two stores to run the queries on\<close>

text \<open>Decimal integers, as \<open>int\<close> reads them from a string of ASCII digits with a sign.\<close>

definition digit_value :: "char \<Rightarrow> nat option" where
  "digit_value c =
     (let n = (of_char c :: nat) in if 48 \<le> n \<and> n \<le> 57 then Some (n - 48) else None)"

fun decimal_digits :: "string \<Rightarrow> nat \<Rightarrow> nat option" where
  "decimal_digits [] acc = Some acc"
| "decimal_digits (c # cs) acc =
     (case digit_value c of None \<Rightarrow> None | Some d \<Rightarrow> decimal_digits cs (10 * acc + d))"

definition decimal_int :: "string \<Rightarrow> int option" where
  "decimal_int s =
     (case s of
        [] \<Rightarrow> None
      | c # cs \<Rightarrow>
          if c = CHR ''-'' then
            (if cs = [] then None else map_option (\<lambda>n. - int n) (decimal_digits cs 0))
          else if c = CHR ''+'' then
            (if cs = [] then None else map_option int (decimal_digits cs 0))
          else map_option int (decimal_digits s 0))"

text \<open>
  The orders of an afternoon, per minute, and the counters the speed layer holds for
  14:00, 14:01, 14:03 and 14:04 (the counter of 14:02 is missing). Times are microseconds
  since midnight; the host clock is UTC and the day is the first of the epoch.
\<close>

definition demo_orders :: "(datetime \<times> int) list" where
  "demo_orders =
     [(13 * HOUR + 58 * MINUTE, 3), (13 * HOUR + 59 * MINUTE, 5), (14 * HOUR + 2 * MINUTE, 7)]"

definition demo_counters :: "(string \<times> string) list" where
  "demo_counters =
     [(''order_count:50400'', ''12''), (''order_count:50460'', ''9''),
      (''order_count:50580'', ''4''), (''order_count:50640'', ''6'')]"

definition demo_window :: "datetime \<Rightarrow> datetime \<Rightarrow> (datetime \<times> int) list" where
  "demo_window start_param end_param =
     filter (\<lambda>row. start_param \<le> fst row \<and> fst row < end_param) demo_orders"

definition demo_service :: service where
  "demo_service =
     \<lparr>clickhouse_minute_counts = (\<lambda>start_param end_param. Inr (demo_window start_param end_param)),
      clickhouse_fallback_count = (\<lambda>start_param end_param.
        Inr (case demo_window start_param end_param of
               [] \<Rightarrow> []
             | row # rows \<Rightarrow> [sum_list (map snd (row # rows))])),
      clickhouse_daily_sales =
        (\<lambda>start_param end_param. Inr [(''3C'', 0, Finite 126900, 423, Finite 300)]),
      clickhouse_realtime = (\<lambda>start_param. Inr []),
      clickhouse_funnel = (\<lambda>start_param end_param. Inr [(1000000, 150000, 50000)]),
      redis_get = (\<lambda>key. Inr (map_of demo_counters key)),
      posix_seconds = (\<lambda>t. t div SECOND),
      int_of_str = decimal_int\<rparr>"

text \<open>What the query returns on this service for 13:00 to 14:06, and the calls it makes.\<close>

definition demo_afternoon_series :: series where
  "demo_afternoon_series =
     [(13 * HOUR + 58 * MINUTE, 3), (13 * HOUR + 59 * MINUTE, 5), (14 * HOUR, 12),
      (14 * HOUR + MINUTE, 9), (14 * HOUR + 2 * MINUTE, 7), (14 * HOUR + 3 * MINUTE, 4),
      (14 * HOUR + 4 * MINUTE, 6)]"

definition demo_afternoon_calls :: "call list" where
  "demo_afternoon_calls =
     [ClickhouseMinuteCounts (13 * HOUR) (14 * HOUR),
      RedisGet ''order_count:50400'', RedisGet ''order_count:50460'',
      RedisGet ''order_count:50520'',
      ClickhouseFallbackCount (14 * HOUR + 2 * MINUTE) (14 * HOUR + 3 * MINUTE),
      RedisGet ''order_count:50580'', RedisGet ''order_count:50640'',
      RedisGet ''order_count:50700'',
      ClickhouseFallbackCount (14 * HOUR + 5 * MINUTE) (14 * HOUR + 6 * MINUTE)]"

text \<open>The same stores with a speed layer that holds the counter 1 for every bucket.\<close>

definition busy_service :: service where
  "busy_service = demo_service\<lparr>redis_get := (\<lambda>key. Inr (Some ''1''))\<rparr>"

text \<open>What the query returns on that service for 13:00 to 14:30, and the calls it makes.\<close>

definition busy_afternoon_series :: series where
  "busy_afternoon_series =
     [(13 * HOUR + 58 * MINUTE, 3), (13 * HOUR + 59 * MINUTE, 5)] @
     map (\<lambda>k. (14 * HOUR + int k * MINUTE, 1)) [0..<30]"

definition busy_afternoon_calls :: "call list" where
  "busy_afternoon_calls =
     ClickhouseMinuteCounts (13 * HOUR) (14 * HOUR) #
     map (\<lambda>k. RedisGet (order_count_key busy_service (14 * HOUR + int k * MINUTE))) [0..<30]"

text \<open>The same service on a day without click-stream rows in the answer.\<close>

definition quiet_service :: service where
  "quiet_service = demo_service\<lparr>clickhouse_funnel := (\<lambda>start_param end_param. Inr [])\<rparr>"

text \<open>
  A day whose view holds a row for a category without orders: the store's own quotient
  \<open>sum(daily_sales) / sum(order_count)\<close> of two zeros is not a number.
\<close>

definition idle_category_service :: service where
  "idle_category_service =
     demo_service\<lparr>clickhouse_daily_sales :=
       (\<lambda>start_param end_param. Inr [(''3C'', 0, Finite 0, 0, NaN)])\<rparr>"

text \<open>A click stream with more cart and purchase events than page views.\<close>

definition api_orders_service :: service where
  "api_orders_service =
     demo_service\<lparr>clickhouse_funnel := (\<lambda>start_param end_param. Inr [(1, 2, 3)])\<rparr>"

section \<open>Properties of the cutover\<close>

lemma HOUR_pos: "0 < HOUR"
  by (simp add: HOUR_def MINUTE_def SECOND_def)

lemma MINUTE_pos: "0 < MINUTE"
  by (simp add: MINUTE_def SECOND_def)


lemma replace_hour_start_le: "replace_hour_start t \<le> t"
  using HOUR_pos by (simp add: replace_hour_start_def)



lemma advance_stays: "e \<le> b \<Longrightarrow> advance_batch_latest e b = b"
  by (simp add: advance_batch_latest.simps [of e b])

lemma advance_lt: "b < e \<Longrightarrow> advance_batch_latest e b < e + HOUR"
proof (induction e b rule: advance_batch_latest.induct)
  case (1 e b)
  show ?case
  proof (cases "b + HOUR < e")
    case True
    with "1.IH" "1.prems" show ?thesis
      by (simp add: advance_batch_latest.simps [of e b])
  next
    case False
    then have "advance_batch_latest e (b + HOUR) = b + HOUR"
      by (simp add: advance_stays)
    with "1.prems" show ?thesis
      by (simp add: advance_batch_latest.simps [of e b])
  qed
qed



lemma batch_latest_lt_end:
  assumes "s \<le> e"
  shows "batch_latest_of s e < e"
proof (cases "replace_hour_start s < e")
  case True
  then show ?thesis
    using advance_lt [of "replace_hour_start s" e] by (simp add: batch_latest_of_def)
next
  case False
  then have "advance_batch_latest e (replace_hour_start s) = replace_hour_start s"
    by (simp add: advance_stays)
  moreover have "replace_hour_start s \<le> e"
    using replace_hour_start_le [of s] assms by simp
  ultimately show ?thesis
    using HOUR_pos by (simp add: batch_latest_of_def)
qed







section \<open>The loop of the speed layer\<close>

lemma buckets_empty: "e \<le> c \<Longrightarrow> buckets c e = []"
  by (simp add: buckets.simps [of c e])

lemma buckets_step: "c < e \<Longrightarrow> buckets c e = c # buckets (c + MINUTE) e"
  by (simp add: buckets.simps [of c e])

lemma buckets_bounds: "t \<in> set (buckets c e) \<Longrightarrow> c \<le> t \<and> t < e"
proof (induction c e rule: buckets.induct)
  case (1 c e)
  show ?case
  proof (cases "c < e")
    case True
    with "1.prems" have "t = c \<or> t \<in> set (buckets (c + MINUTE) e)"
      by (simp add: buckets_step)
    with "1.IH" True MINUTE_pos show ?thesis by auto
  next
    case False
    with "1.prems" show ?thesis by (simp add: buckets_empty)
  qed
qed

lemma buckets_sorted: "sorted_wrt (<) (buckets c e)"
proof (induction c e rule: buckets.induct)
  case (1 c e)
  show ?case
  proof (cases "c < e")
    case True
    have "c < t" if "t \<in> set (buckets (c + MINUTE) e)" for t
      using buckets_bounds [OF that] MINUTE_pos by simp
    with "1.IH" True show ?thesis
      by (simp add: buckets_step)
  next
    case False
    then show ?thesis by (simp add: buckets_empty)
  qed
qed

lemma buckets_member:
  "t \<in> set (buckets c e) \<longleftrightarrow> c \<le> t \<and> t < e \<and> (t - c) mod MINUTE = 0"
proof (induction c e rule: buckets.induct)
  case (1 c e)
  show ?case
  proof (cases "c < e")
    case True
    have step: "(c + MINUTE \<le> t \<and> (t - (c + MINUTE)) mod MINUTE = 0)
                 \<longleftrightarrow> (c < t \<and> (t - c) mod MINUTE = 0)"
    proof
      assume a: "c + MINUTE \<le> t \<and> (t - (c + MINUTE)) mod MINUTE = 0"
      have "(t - c) mod MINUTE = (t - (c + MINUTE) + MINUTE) mod MINUTE" by simp
      also have "\<dots> = (t - (c + MINUTE)) mod MINUTE" by (simp only: mod_add_self2)
      finally show "c < t \<and> (t - c) mod MINUTE = 0"
        using a MINUTE_pos by simp
    next
      assume a: "c < t \<and> (t - c) mod MINUTE = 0"
      then have "MINUTE dvd (t - c)" by auto
      then obtain k where k: "t - c = MINUTE * k" by (auto simp: dvd_def)
      from a k have "0 < MINUTE * k" by simp
      with MINUTE_pos have "0 < k"
        by (rule_tac zero_less_mult_pos)
      then have "MINUTE * 1 \<le> MINUTE * k"
        using MINUTE_pos by (simp only: mult_le_cancel_left_pos)
      with k have "c + MINUTE \<le> t" by simp
      moreover have "(t - (c + MINUTE)) mod MINUTE = (t - (c + MINUTE) + MINUTE) mod MINUTE"
        by (simp only: mod_add_self2)
      ultimately show "c + MINUTE \<le> t \<and> (t - (c + MINUTE)) mod MINUTE = 0"
        using a by simp
    qed
    from True have "t \<in> set (buckets c e) \<longleftrightarrow> t = c \<or> t \<in> set (buckets (c + MINUTE) e)"
      by (simp add: buckets_step)
    also have "\<dots> \<longleftrightarrow> t = c \<or> (c + MINUTE \<le> t \<and> t < e \<and> (t - (c + MINUTE)) mod MINUTE = 0)"
      using "1.IH" True by simp
    also have "\<dots> \<longleftrightarrow> t = c \<or> (c < t \<and> t < e \<and> (t - c) mod MINUTE = 0)"
    proof -
      have "(c + MINUTE \<le> t \<and> t < e \<and> (t - (c + MINUTE)) mod MINUTE = 0)
             \<longleftrightarrow> (c < t \<and> t < e \<and> (t - c) mod MINUTE = 0)"
        using step by (cases "t < e") simp_all
      then show ?thesis by (rule arg_cong)
    qed
    also have "\<dots> \<longleftrightarrow> c \<le> t \<and> t < e \<and> (t - c) mod MINUTE = 0"
      using True by auto
    finally show ?thesis .
  next
    case False
    then show ?thesis by (auto simp: buckets_empty)
  qed
qed

lemma speed_bucket_calls:
  "speed_bucket svc t results calls = (r, c) \<Longrightarrow> c = calls @ bucket_calls svc t"
  by (auto simp: speed_bucket_def fallback_bucket_def bucket_calls_def speed_miss_def Let_def
      split: sum.splits option.splits list.splits if_splits)

lemma speed_bucket_points:
  "speed_bucket svc t results calls = (Inr r, c) \<Longrightarrow> r = results @ bucket_points svc t"
  by (auto simp: speed_bucket_def fallback_bucket_def bucket_points_def fallback_points_def Let_def
      split: sum.splits option.splits list.splits if_splits)

lemma speed_loop_success:
  "speed_loop svc e cur results calls = (Inr r, c) \<Longrightarrow>
     r = results @ concat (map (bucket_points svc) (buckets cur e))
   \<and> c = calls @ concat (map (bucket_calls svc) (buckets cur e))"
proof (induction svc e cur results calls rule: speed_loop.induct)
  case (1 svc e cur results calls)
  show ?case
  proof (cases "cur < e")
    case True
    obtain x calls1 where sb: "speed_bucket svc cur results calls = (x, calls1)"
      by (cases "speed_bucket svc cur results calls")
    show ?thesis
    proof (cases x)
      case (Inl err)
      with "1.prems" True sb show ?thesis
        by (simp add: speed_loop.simps [of svc e cur])
    next
      case (Inr results1)
      with "1.prems" True sb
      have run: "speed_loop svc e (cur + MINUTE) results1 calls1 = (Inr r, c)"
        by (simp add: speed_loop.simps [of svc e cur])
      from sb Inr have r1: "results1 = results @ bucket_points svc cur"
        by (simp add: speed_bucket_points)
      from sb have c1: "calls1 = calls @ bucket_calls svc cur"
        by (rule speed_bucket_calls)
      from "1.IH" [OF True sb [symmetric] Inr run] r1 c1 True show ?thesis
        by (simp add: buckets_step)
    qed
  next
    case False
    with "1.prems" show ?thesis
      by (simp add: speed_loop.simps [of svc e cur] buckets_empty)
  qed
qed

lemma bucket_points_fst:
  "map fst (bucket_points svc t) = (if bucket_points svc t = [] then [] else [t])"
  by (auto simp: bucket_points_def fallback_points_def
      split: sum.splits option.splits list.splits)




lemma query_batch_layer_success:
  assumes "query_batch_layer svc s e bl [] [] = (Inr batch_results, calls1)"
  shows "(s < bl \<and> clickhouse_minute_counts svc s (min e bl) = Inr batch_results
            \<and> calls1 = [ClickhouseMinuteCounts s (min e bl)])
       \<or> (\<not> s < bl \<and> batch_results = [] \<and> calls1 = [])"
  using assms by (auto simp: query_batch_layer_def Let_def split: if_splits sum.splits)

lemma get_order_count_success:
  assumes "get_order_count_by_minute svc s e = (Inr results, calls)"
  shows "\<exists>batch_results calls1.
           query_batch_layer svc s e (batch_latest_of s e) [] [] = (Inr batch_results, calls1)
         \<and> query_speed_layer svc e (batch_latest_of s e) batch_results calls1 =
             (Inr results, calls)
         \<and> results = batch_results @
             concat (map (bucket_points svc) (buckets (batch_latest_of s e) e))
         \<and> calls = calls1 @
             concat (map (bucket_calls svc) (buckets (batch_latest_of s e) e))"
proof -
  obtain x calls1 where qb: "query_batch_layer svc s e (batch_latest_of s e) [] [] = (x, calls1)"
    by (cases "query_batch_layer svc s e (batch_latest_of s e) [] []")
  show ?thesis
  proof (cases x)
    case (Inl err)
    with assms qb show ?thesis
      by (simp add: get_order_count_by_minute_def)
  next
    case (Inr batch_results)
    with assms qb
    have sp: "query_speed_layer svc e (batch_latest_of s e) batch_results calls1 = (Inr results, calls)"
      by (simp add: get_order_count_by_minute_def)
    show ?thesis
    proof (cases "e > batch_latest_of s e")
      case True
      with sp have "speed_loop svc e (batch_latest_of s e) batch_results calls1 = (Inr results, calls)"
        by (simp add: query_speed_layer_def)
      from speed_loop_success [OF this] qb Inr sp show ?thesis by simp
    next
      case False
      with sp have "results = batch_results \<and> calls = calls1"
        by (simp add: query_speed_layer_def)
      with False qb Inr sp show ?thesis by (simp add: buckets_empty)
    qed
  qed
qed

section \<open>The aggregate queries: ratios and the first row\<close>

lemma realtime_avg_guarded:
  assumes "get_realtime_metrics svc now = Inr metrics" and "last_5min_orders metrics = 0"
  shows "realtime_avg_order_value metrics = Finite 0"
proof -
  obtain results where "clickhouse_realtime svc (now - 5 * MINUTE) = Inr results"
    using assms(1) by (cases "clickhouse_realtime svc (now - 5 * MINUTE)")
      (simp_all add: get_realtime_metrics_def)
  with assms(1) have m: "metrics = \<lparr>last_5min_orders = sum_list (map (\<lambda>(row0, row1, row2). row1) results),
      last_5min_revenue = foldl fadd (Finite 0) (map (\<lambda>(row0, row1, row2). row2) results),
      realtime_avg_order_value =
        (if sum_list (map (\<lambda>(row0, row1, row2). row1) results) > 0
         then fdiv_pos (foldl fadd (Finite 0) (map (\<lambda>(row0, row1, row2). row2) results))
                (sum_list (map (\<lambda>(row0, row1, row2). row1) results))
         else Finite 0),
      orders_per_minute =
        map (\<lambda>(row0, row1, row2).
          \<lparr>per_minute_minute = row0, per_minute_count = row1,
           per_minute_revenue = row2\<rparr>) results\<rparr>"
    by (simp add: get_realtime_metrics_def Let_def)
  from assms(2) have "sum_list (map (\<lambda>(row0, row1, row2). row1) results) = 0"
    unfolding m by (simp del: sum_list_eq_0_iff)
  then show ?thesis
    unfolding m by (simp del: sum_list_eq_0_iff)
qed

text \<open>
  C7, at the input where it fails. \<open>get_realtime_metrics\<close> and \<open>get_conversion_funnel\<close> guard
  their quotients with \<open>if ... > 0 else 0\<close>; \<open>get_daily_sales_by_category\<close> has no guard: its
  \<open>avg_order_value\<close> is the quotient the store computed, passed through \<open>float\<close>. For a row
  whose \<open>order_count\<close> is 0 the result carries the store's value, here not a number, and not 0.
\<close>

theorem daily_sales_avg_passed_through:
  "get_daily_sales_by_category idle_category_service 0 DAY =
     Inr [\<lparr>category = ''3C'', order_date = 0, daily_sales = Finite 0, order_count = 0,
           avg_order_value = NaN\<rparr>]
 \<and> NaN \<noteq> Finite 0"
  by (simp add: get_daily_sales_by_category_def idle_category_service_def demo_service_def)

text \<open>
  C8 as stated fails: the rates are not clamped. With 1 page view, 2 cart events and 3
  purchases the three rates are 200, 150 and 300.
\<close>

theorem funnel_rate_above_100:
  "get_conversion_funnel api_orders_service 0 DAY =
     Inr \<lparr>page_views = 1, add_to_carts = 2, purchases = 3, view_to_cart_rate = 200,
          cart_to_purchase_rate = 150, overall_conversion_rate = 300\<rparr>
 \<and> \<not> (200 :: real) \<le> 100"
  by (simp add: get_conversion_funnel_def api_orders_service_def demo_service_def)

text \<open>
  C8, amended. Each rate of \<open>get_conversion_funnel\<close> is a percentage that is at least 0, is
  exactly 0 when its denominator is 0, and is at most 100 whenever its numerator count is at
  most its denominator count.
\<close>

theorem funnel_rates:
  assumes "get_conversion_funnel svc start_date end_date = Inr funnel"
  shows "0 \<le> view_to_cart_rate funnel \<and> 0 \<le> cart_to_purchase_rate funnel
       \<and> 0 \<le> overall_conversion_rate funnel
       \<and> (page_views funnel = 0
            \<longrightarrow> view_to_cart_rate funnel = 0 \<and> overall_conversion_rate funnel = 0)
       \<and> (add_to_carts funnel = 0 \<longrightarrow> cart_to_purchase_rate funnel = 0)
       \<and> (add_to_carts funnel \<le> page_views funnel \<longrightarrow> view_to_cart_rate funnel \<le> 100)
       \<and> (purchases funnel \<le> add_to_carts funnel \<longrightarrow> cart_to_purchase_rate funnel \<le> 100)
       \<and> (purchases funnel \<le> page_views funnel \<longrightarrow> overall_conversion_rate funnel \<le> 100)"
proof -
  from assms obtain pv atc pu where
    f: "funnel = \<lparr>page_views = pv, add_to_carts = atc, purchases = pu,
          view_to_cart_rate = (if pv > 0 then real atc / real pv * 100 else 0),
          cart_to_purchase_rate = (if atc > 0 then real pu / real atc * 100 else 0),
          overall_conversion_rate = (if pv > 0 then real pu / real pv * 100 else 0)\<rparr>"
    by (auto simp: get_conversion_funnel_def split: sum.splits list.splits prod.splits)
  have le: "real a / real b * 100 \<le> 100" if "a \<le> b" and "0 < b" for a b :: nat
    using that by (simp add: field_simps)
  show ?thesis
    unfolding f using le by simp
qed

theorem funnel_rates_witness:
  "get_conversion_funnel demo_service 0 DAY =
     Inr \<lparr>page_views = 1000000, add_to_carts = 150000, purchases = 50000,
          view_to_cart_rate = 15, cart_to_purchase_rate = 100 / 3,
          overall_conversion_rate = 5\<rparr>
 \<and> (15 :: real) \<le> 100"
proof -
  have run: "get_conversion_funnel demo_service 0 DAY =
     Inr \<lparr>page_views = 1000000, add_to_carts = 150000, purchases = 50000,
          view_to_cart_rate = 15, cart_to_purchase_rate = 100 / 3,
          overall_conversion_rate = 5\<rparr>"
    by (simp add: get_conversion_funnel_def demo_service_def)
  from funnel_rates [OF run] run show ?thesis by simp
qed

text \<open>
  C10. \<open>get_conversion_funnel\<close> indexes the first row of the answer unconditionally: on the
  empty answer it raises \<open>IndexError\<close> (neither a value nor an error of the store), and on an
  answer with at least one row it returns a value built from the first row.
\<close>

theorem funnel_indexes_first_row:
  "(clickhouse_funnel svc (date start_date) (date end_date) = Inr []
      \<longrightarrow> get_conversion_funnel svc start_date end_date = Inl IndexError)
 \<and> (\<forall>row rows. clickhouse_funnel svc (date start_date) (date end_date) = Inr (row # rows)
      \<longrightarrow> (\<exists>funnel. get_conversion_funnel svc start_date end_date = Inr funnel
             \<and> (page_views funnel, add_to_carts funnel, purchases funnel) = row))"
  by (auto simp: get_conversion_funnel_def)

theorem funnel_indexes_first_row_witness:
  "clickhouse_funnel quiet_service (date 0) (date DAY) = Inr []
 \<and> get_conversion_funnel quiet_service 0 DAY = Inl IndexError"
proof -
  have "clickhouse_funnel quiet_service (date 0) (date DAY) = Inr []"
    by (simp add: quiet_service_def demo_service_def)
  with funnel_indexes_first_row [of quiet_service 0 DAY] show ?thesis by simp
qed

lemma bucket_points_times:
  assumes "p \<in> set (bucket_points svc t)"
  shows "fst p = t"
proof -
  from assms have "fst p \<in> set (map fst (bucket_points svc t))"
    by (simp only: set_map) (rule imageI)
  then show ?thesis
    by (simp only: bucket_points_fst split: if_splits) simp_all
qed

lemma speed_points_of_bucket:
  "(t, n) \<in> set (concat (map (bucket_points svc) bs))
     \<longleftrightarrow> t \<in> set bs \<and> (t, n) \<in> set (bucket_points svc t)"
  using bucket_points_times by fastforce

lemma fallback_call_count:
  assumes "distinct bs"
  shows "count_list (concat (map (bucket_calls svc) bs)) (ClickhouseFallbackCount t (t + MINUTE))
           = (if t \<in> set bs \<and> speed_miss svc t then 1 else 0)"
  using assms
proof (induction bs)
  case Nil
  then show ?case by simp
next
  case (Cons b bs)
  have here: "count_list (bucket_calls svc b) (ClickhouseFallbackCount t (t + MINUTE))
                = (if b = t \<and> speed_miss svc t then 1 else 0)"
    by (auto simp: bucket_calls_def)
  from Cons show ?case
    by (auto simp: here)
qed

lemma buckets_distinct: "distinct (buckets c e)"
  using buckets_sorted [of c e] by (simp add: strict_sorted_iff)

section \<open>Runs on the demonstration service\<close>

lemmas time_defs = HOUR_def MINUTE_def SECOND_def

lemmas run_defs =
  get_order_count_by_minute_def query_batch_layer_def query_speed_layer_def
  speed_loop.simps speed_bucket_def fallback_bucket_def order_count_key_def
  batch_latest_of_def replace_hour_start_def advance_batch_latest.simps
  str_def str_of_nat.simps digit_char_def
  demo_service_def demo_counters_def demo_orders_def demo_window_def
  decimal_int_def digit_value_def Let_def

lemma demo_afternoon_run:
  "get_order_count_by_minute demo_service (13 * HOUR) (14 * HOUR + 6 * MINUTE) =
     (Inr demo_afternoon_series, demo_afternoon_calls)"
  by (simp add: run_defs time_defs demo_afternoon_series_def demo_afternoon_calls_def)

lemma demo_afternoon_cutover:
  "batch_latest_of (13 * HOUR) (14 * HOUR + 6 * MINUTE) = 14 * HOUR"
  by (simp add: batch_latest_of_def replace_hour_start_def advance_batch_latest.simps time_defs)


section \<open>The two layers and the merged series\<close>





section \<open>The fallback of the speed layer\<close>

lemma count_batch_calls:
  assumes "query_batch_layer svc s e bl [] [] = (Inr batch_results, calls1)"
  shows "count_list calls1 (ClickhouseFallbackCount t u) = 0"
  using query_batch_layer_success [OF assms] by auto

lemma fallback_points_rows:
  "clickhouse_fallback_count svc t (t + MINUTE) = Inr (row # rows)
     \<Longrightarrow> fallback_points svc t = [(t, row)]"
  "clickhouse_fallback_count svc t (t + MINUTE) = Inr [] \<Longrightarrow> fallback_points svc t = []"
  by (simp_all add: fallback_points_def)

lemma bucket_points_miss:
  assumes "redis_get svc (order_count_key svc t) = Inr None
         \<or> redis_get svc (order_count_key svc t) = Inr (Some [])"
  shows "bucket_points svc t = fallback_points svc t" and "speed_miss svc t"
  using assms by (auto simp: bucket_points_def speed_miss_def)

text \<open>
  C2. On every returning run, for every bucket \<open>t\<close> of the speed-layer portion (a whole
  number of minutes after the cutover, before \<open>end_time\<close>) for which the speed store has no
  value (\<open>None\<close>, or the empty string, which \<open>if count:\<close> treats alike), exactly one
  single-bucket query is sent to the batch store for the window from \<open>t\<close> to one minute
  later. If its answer has a first row, the speed-layer part of the result has the point
  of \<open>t\<close> with that row's count and no other point for \<open>t\<close>; if its answer has no rows,
  the speed-layer part has no point for \<open>t\<close>, so none with a count of zero.
\<close>

theorem speed_miss_falls_back:
  assumes run: "get_order_count_by_minute svc start_time end_time = (Inr results, calls)"
    and lower: "batch_latest_of start_time end_time \<le> t"
    and upper: "t < end_time"
    and minute: "(t - batch_latest_of start_time end_time) mod MINUTE = 0"
    and miss: "redis_get svc (order_count_key svc t) = Inr None
             \<or> redis_get svc (order_count_key svc t) = Inr (Some [])"
  shows "count_list calls (ClickhouseFallbackCount t (t + MINUTE)) = 1
    \<and> (\<exists>batch_results calls1 speed_results.
          query_batch_layer svc start_time end_time (batch_latest_of start_time end_time) [] []
            = (Inr batch_results, calls1)
        \<and> results = batch_results @ speed_results
        \<and> (\<forall>row rows. clickhouse_fallback_count svc t (t + MINUTE) = Inr (row # rows)
              \<longrightarrow> (t, row) \<in> set speed_results
                \<and> (\<forall>n. (t, n) \<in> set speed_results \<longrightarrow> n = row))
        \<and> (clickhouse_fallback_count svc t (t + MINUTE) = Inr []
              \<longrightarrow> t \<notin> fst ` set speed_results))"
proof -
  let ?bl = "batch_latest_of start_time end_time"
  let ?bs = "buckets ?bl end_time"
  let ?sp = "concat (map (bucket_points svc) ?bs)"
  from get_order_count_success [OF run] obtain batch_results calls1 where
    qb: "query_batch_layer svc start_time end_time ?bl [] [] = (Inr batch_results, calls1)"
    and res: "results = batch_results @ ?sp"
    and cs: "calls = calls1 @ concat (map (bucket_calls svc) ?bs)"
    by blast
  from lower upper minute have member: "t \<in> set ?bs"
    by (simp only: buckets_member)
  have "count_list calls (ClickhouseFallbackCount t (t + MINUTE)) = 1"
    unfolding cs count_list_append
    using count_batch_calls [OF qb] fallback_call_count [OF buckets_distinct]
      member bucket_points_miss(2) [OF miss]
    by simp
  moreover have "(t, row) \<in> set ?sp \<and> (\<forall>n. (t, n) \<in> set ?sp \<longrightarrow> n = row)"
    if "clickhouse_fallback_count svc t (t + MINUTE) = Inr (row # rows)" for row rows
    using member bucket_points_miss(1) [OF miss] fallback_points_rows(1) [OF that]
    by (simp only: speed_points_of_bucket) simp
  moreover have "t \<notin> fst ` set ?sp"
    if "clickhouse_fallback_count svc t (t + MINUTE) = Inr []"
  proof
    assume "t \<in> fst ` set ?sp"
    then obtain n where "(t, n) \<in> set ?sp" by force
    then show False
      using bucket_points_miss(1) [OF miss] fallback_points_rows(2) [OF that]
      by (simp only: speed_points_of_bucket) simp
  qed
  ultimately show ?thesis
    using qb res by blast
qed

theorem speed_miss_falls_back_witness:
  "get_order_count_by_minute demo_service (13 * HOUR) (14 * HOUR + 6 * MINUTE) =
     (Inr demo_afternoon_series, demo_afternoon_calls)
 \<and> redis_get demo_service (order_count_key demo_service (14 * HOUR + 2 * MINUTE)) = Inr None
 \<and> clickhouse_fallback_count demo_service (14 * HOUR + 2 * MINUTE) (14 * HOUR + 3 * MINUTE)
      = Inr [7]
 \<and> count_list demo_afternoon_calls
      (ClickhouseFallbackCount (14 * HOUR + 2 * MINUTE) (14 * HOUR + 2 * MINUTE + MINUTE)) = 1
 \<and> (14 * HOUR + 2 * MINUTE, 7) \<in> set (drop 2 demo_afternoon_series)
 \<and> redis_get demo_service (order_count_key demo_service (14 * HOUR + 5 * MINUTE)) = Inr None
 \<and> clickhouse_fallback_count demo_service (14 * HOUR + 5 * MINUTE) (14 * HOUR + 6 * MINUTE)
      = Inr []
 \<and> 14 * HOUR + 5 * MINUTE \<notin> fst ` set (drop 2 demo_afternoon_series)"
proof -
  let ?s = "13 * HOUR" and ?e = "14 * HOUR + 6 * MINUTE"
  let ?t2 = "14 * HOUR + 2 * MINUTE" and ?t5 = "14 * HOUR + 5 * MINUTE"
  have lower2: "batch_latest_of ?s ?e \<le> ?t2" and upper2: "?t2 < ?e"
    and minute2: "(?t2 - batch_latest_of ?s ?e) mod MINUTE = 0"
    and lower5: "batch_latest_of ?s ?e \<le> ?t5" and upper5: "?t5 < ?e"
    and minute5: "(?t5 - batch_latest_of ?s ?e) mod MINUTE = 0"
    by (simp_all only: demo_afternoon_cutover) (simp_all add: time_defs)
  have get2: "redis_get demo_service (order_count_key demo_service ?t2) = Inr None"
    and get5: "redis_get demo_service (order_count_key demo_service ?t5) = Inr None"
    by (simp_all add: run_defs time_defs)
  have fb2: "clickhouse_fallback_count demo_service ?t2 (?t2 + MINUTE) = Inr [7]"
    and fb5: "clickhouse_fallback_count demo_service ?t5 (?t5 + MINUTE) = Inr []"
    by (simp_all add: run_defs time_defs)
  have qb: "query_batch_layer demo_service ?s ?e (batch_latest_of ?s ?e) [] [] =
              (Inr (take 2 demo_afternoon_series), [ClickhouseMinuteCounts ?s (14 * HOUR)])"
    by (simp add: demo_afternoon_cutover)
       (simp add: query_batch_layer_def demo_service_def demo_window_def demo_orders_def
          demo_afternoon_series_def time_defs)
  have two: "length (take 2 demo_afternoon_series) = 2"
    by (simp add: demo_afternoon_series_def)
  from speed_miss_falls_back [OF demo_afternoon_run lower2 upper2 minute2 disjI1 [OF get2]]
  obtain speed2 where
    count2: "count_list demo_afternoon_calls (ClickhouseFallbackCount ?t2 (?t2 + MINUTE)) = 1"
    and split2: "demo_afternoon_series = take 2 demo_afternoon_series @ speed2"
    and point2: "(?t2, 7) \<in> set speed2"
    using fb2 by (auto simp only: qb prod.inject sum.inject)
  from speed_miss_falls_back [OF demo_afternoon_run lower5 upper5 minute5 disjI1 [OF get5]]
  obtain speed5 where
    split5: "demo_afternoon_series = take 2 demo_afternoon_series @ speed5"
    and point5: "?t5 \<notin> fst ` set speed5"
    using fb5 by (auto simp only: qb prod.inject sum.inject)
  have "speed2 = drop 2 demo_afternoon_series"
    using arg_cong [OF split2, of "drop 2"] two by simp
  moreover have "speed5 = drop 2 demo_afternoon_series"
    using arg_cong [OF split5, of "drop 2"] two by simp
  moreover have fb2': "clickhouse_fallback_count demo_service ?t2 (14 * HOUR + 3 * MINUTE) = Inr [7]"
    and fb5': "clickhouse_fallback_count demo_service ?t5 (14 * HOUR + 6 * MINUTE) = Inr []"
    by (simp_all add: run_defs time_defs)
  ultimately show ?thesis
    using demo_afternoon_run get2 get5 count2 point2 point5 by blast
qed

section \<open>Where the speed layer starts\<close>

lemma redis_keys_append: "redis_keys (xs @ ys) = redis_keys xs @ redis_keys ys"
  by (induction xs rule: redis_keys.induct) simp_all

lemma redis_keys_speed:
  "redis_keys (concat (map (bucket_calls svc) bs)) = map (order_count_key svc) bs"
  by (induction bs) (simp_all add: redis_keys_append bucket_calls_def)

lemma buckets_upt: "buckets c (c + int n * MINUTE) = map (\<lambda>k. c + int k * MINUTE) [0..<n]"
proof (induction n arbitrary: c)
  case 0
  then show ?case by (simp add: buckets_empty)
next
  case (Suc n)
  have "c < c + int (Suc n) * MINUTE"
    using MINUTE_pos by simp
  then have "buckets c (c + int (Suc n) * MINUTE)
               = c # buckets (c + MINUTE) (c + MINUTE + int n * MINUTE)"
    by (simp add: buckets_step algebra_simps)
  also have "\<dots> = c # map (\<lambda>k. c + MINUTE + int k * MINUTE) [0..<n]"
    by (simp only: Suc.IH)
  also have "\<dots> = map (\<lambda>k. c + int k * MINUTE) [0..<Suc n]"
    by (simp only: map_upt_Suc) (simp add: algebra_simps)
  finally show ?case .
qed

lemma speed_loop_calls_grow:
  "length calls \<le> length (snd (speed_loop svc e cur results calls))"
proof (induction svc e cur results calls rule: speed_loop.induct)
  case (1 svc e cur results calls)
  show ?case
  proof (cases "cur < e")
    case True
    obtain x calls1 where sb: "speed_bucket svc cur results calls = (x, calls1)"
      by (cases "speed_bucket svc cur results calls")
    from speed_bucket_calls [OF sb] have len: "length calls < length calls1"
      by (simp add: bucket_calls_def)
    show ?thesis
    proof (cases x)
      case (Inl err)
      with True sb len show ?thesis
        by (simp add: speed_loop.simps [of svc e cur])
    next
      case (Inr results1)
      from "1.IH" [OF True sb [symmetric] Inr] len True sb Inr show ?thesis
        by (simp add: speed_loop.simps [of svc e cur])
    qed
  next
    case False
    then show ?thesis by (simp add: speed_loop.simps [of svc e cur])
  qed
qed

lemma zero_length_range_calls_store:
  "snd (get_order_count_by_minute svc t t) \<noteq> []"
proof -
  let ?bl = "batch_latest_of t t"
  have lt: "?bl < t" by (rule batch_latest_lt_end) simp
  then have qb: "query_batch_layer svc t t ?bl [] [] = (Inr [], [])"
    by (simp add: query_batch_layer_def)
  obtain x calls1 where sb: "speed_bucket svc ?bl [] [] = (x, calls1)"
    by (cases "speed_bucket svc ?bl [] []")
  from speed_bucket_calls [OF sb] have ne: "0 < length calls1"
    by (simp add: bucket_calls_def)
  have "0 < length (snd (speed_loop svc t ?bl [] []))"
  proof (cases x)
    case (Inl err)
    with sb lt ne show ?thesis by (simp add: speed_loop.simps [of svc t ?bl])
  next
    case (Inr results1)
    with sb lt have "speed_loop svc t ?bl [] [] = speed_loop svc t (?bl + MINUTE) results1 calls1"
      by (simp add: speed_loop.simps [of svc t ?bl])
    with speed_loop_calls_grow [of calls1 svc t "?bl + MINUTE" results1] ne show ?thesis
      by (simp only: )
  qed
  then have "snd (speed_loop svc t ?bl [] []) \<noteq> []"
    by simp
  with qb lt show ?thesis
    by (simp add: get_order_count_by_minute_def query_speed_layer_def)
qed

text \<open>
  C3, at an input where it fails. The loop starts at the cutover (\<open>current = batch_latest\<close>),
  not at \<open>max(start_time, batch_latest)\<close>: for the range 14:03 to 14:05 the cutover is 14:00
  and the result has the buckets 14:00, 14:01 and 14:02, which lie before the start of the
  range.
\<close>

theorem speed_layer_reads_before_start:
  "get_order_count_by_minute demo_service (14 * HOUR + 3 * MINUTE) (14 * HOUR + 5 * MINUTE) =
     (Inr [(14 * HOUR, 12), (14 * HOUR + MINUTE, 9), (14 * HOUR + 2 * MINUTE, 7),
           (14 * HOUR + 3 * MINUTE, 4), (14 * HOUR + 4 * MINUTE, 6)],
      [RedisGet ''order_count:50400'', RedisGet ''order_count:50460'',
       RedisGet ''order_count:50520'',
       ClickhouseFallbackCount (14 * HOUR + 2 * MINUTE) (14 * HOUR + 3 * MINUTE),
       RedisGet ''order_count:50580'', RedisGet ''order_count:50640''])
 \<and> 14 * HOUR < 14 * HOUR + 3 * MINUTE"
  by (simp add: run_defs time_defs)

text \<open>
  C4, at an input where it fails. For the zero-length range from 14:01 to 14:01 the cutover is
  14:00, which is before the end, so the speed layer is read from 14:00: the result has a point
  and a call to the speed store was made. (By \<open>zero_length_range_calls_store\<close> every
  zero-length range makes at least one call.)
\<close>

theorem zero_length_range_reads_speed_layer:
  "get_order_count_by_minute demo_service (14 * HOUR + MINUTE) (14 * HOUR + MINUTE) =
     (Inr [(14 * HOUR, 12)], [RedisGet ''order_count:50400''])"
  by (simp add: run_defs time_defs)

text \<open>
  C9 as stated fails: for the window 13:00 to 14:30 the loop of lines 50 and 51 advances from
  13:00 to 15:00 and line 52 steps back to 14:00, so the cutover is not 13:00.
\<close>

theorem scenario_a_cutover_not_13:
  "batch_latest_of (13 * HOUR) (14 * HOUR + 30 * MINUTE) \<noteq> 13 * HOUR"
  by (simp add: batch_latest_of_def replace_hour_start_def advance_batch_latest.simps time_defs)

lemma scenario_a_cutover:
  "batch_latest_of (13 * HOUR) (14 * HOUR + 30 * MINUTE) = 14 * HOUR"
  by (simp add: batch_latest_of_def replace_hour_start_def advance_batch_latest.simps time_defs)

text \<open>
  C9, amended. For the window 13:00 to 14:30 (the cadence is one hour) the cutover is 14:00;
  the batch layer is queried once, for 13:00 up to 14:00, and the speed layer then runs from
  14:00 to 14:30: on a returning run the keys looked up are those of the thirty buckets
  14:00, 14:01, ..., 14:29, in this order.
\<close>

theorem scenario_a_split:
  "batch_latest_of (13 * HOUR) (14 * HOUR + 30 * MINUTE) = 14 * HOUR
 \<and> get_order_count_by_minute svc (13 * HOUR) (14 * HOUR + 30 * MINUTE) =
     (case clickhouse_minute_counts svc (13 * HOUR) (14 * HOUR) of
        Inl err \<Rightarrow> (Inl err, [ClickhouseMinuteCounts (13 * HOUR) (14 * HOUR)])
      | Inr batch_results \<Rightarrow>
          speed_loop svc (14 * HOUR + 30 * MINUTE) (14 * HOUR) batch_results
            [ClickhouseMinuteCounts (13 * HOUR) (14 * HOUR)])
 \<and> (\<forall>results calls.
       get_order_count_by_minute svc (13 * HOUR) (14 * HOUR + 30 * MINUTE) = (Inr results, calls)
       \<longrightarrow> redis_keys calls =
             map (\<lambda>k. order_count_key svc (14 * HOUR + int k * MINUTE)) [0..<30])"
proof -
  let ?s = "13 * HOUR" and ?e = "14 * HOUR + 30 * MINUTE"
  have lt: "?s < 14 * HOUR" and m: "min ?e (14 * HOUR) = 14 * HOUR" and gt: "?e > 14 * HOUR"
    by (simp_all add: time_defs)
  have eq: "get_order_count_by_minute svc ?s ?e =
     (case clickhouse_minute_counts svc ?s (14 * HOUR) of
        Inl err \<Rightarrow> (Inl err, [ClickhouseMinuteCounts ?s (14 * HOUR)])
      | Inr batch_results \<Rightarrow>
          speed_loop svc ?e (14 * HOUR) batch_results [ClickhouseMinuteCounts ?s (14 * HOUR)])"
    unfolding get_order_count_by_minute_def scenario_a_cutover Let_def query_batch_layer_def
      query_speed_layer_def
    using lt m gt by (simp split: sum.splits)
  have keys: "redis_keys calls = map (\<lambda>k. order_count_key svc (14 * HOUR + int k * MINUTE)) [0..<30]"
    if run: "get_order_count_by_minute svc ?s ?e = (Inr results, calls)" for results calls
  proof -
    from get_order_count_success [OF run] obtain batch_results calls1 where
      qb: "query_batch_layer svc ?s ?e (14 * HOUR) [] [] = (Inr batch_results, calls1)"
      and cs: "calls = calls1 @ concat (map (bucket_calls svc) (buckets (14 * HOUR) ?e))"
      unfolding scenario_a_cutover by blast
    from query_batch_layer_success [OF qb] lt
    have c1: "calls1 = [ClickhouseMinuteCounts ?s (min ?e (14 * HOUR))]" by simp
    have "buckets (14 * HOUR) (14 * HOUR + int 30 * MINUTE)
            = map (\<lambda>k. 14 * HOUR + int k * MINUTE) [0..<30]"
      by (rule buckets_upt)
    then have bs: "buckets (14 * HOUR) ?e = map (\<lambda>k. 14 * HOUR + int k * MINUTE) [0..<30]"
      by simp
    show ?thesis
      unfolding cs c1 redis_keys_append redis_keys_speed bs
      by (simp add: comp_def)
  qed
  from scenario_a_cutover eq keys show ?thesis by blast
qed

lemma busy_afternoon_run:
  "get_order_count_by_minute busy_service (13 * HOUR) (14 * HOUR + 30 * MINUTE) =
     (Inr busy_afternoon_series, busy_afternoon_calls)"
  by (simp add: run_defs time_defs busy_service_def busy_afternoon_series_def
        busy_afternoon_calls_def upt_conv_Cons)

theorem scenario_a_split_witness:
  "get_order_count_by_minute busy_service (13 * HOUR) (14 * HOUR + 30 * MINUTE) =
     (Inr busy_afternoon_series, busy_afternoon_calls)
 \<and> redis_keys busy_afternoon_calls =
     map (\<lambda>k. order_count_key busy_service (14 * HOUR + int k * MINUTE)) [0..<30]"
  using scenario_a_split [of busy_service] busy_afternoon_run by blast

end
